theory Spec2Isabelle
  imports Complex_Main "HOL-Library.Product_Lexorder" "HOL-Library.Word"
begin

text \<open>
  A shallow embedding of \<^verbatim>\<open>gempy/library/tracing.py\<close>: the Ricker wavelet transform,
  the centroiding of peaks, the tail of \<^verbatim>\<open>find_peaks\<close> that filters and merges the
  candidates, \<^verbatim>\<open>reject_bad_peaks\<close> on an explicit store of list objects, the iteration
  of \<^verbatim>\<open>Aperture.optimal_extraction\<close> and the stepping of \<^verbatim>\<open>trace_lines\<close>.

  Floating-point numbers are modelled as exact reals. Library routines the module calls
  but does not define (the spline fit and its integral, the statistics, the profile
  fits) are parameters of the definitions that use them.
\<close>

section \<open>Python and numpy primitives used by the module\<close>

datatype error = ValueError | IndexError

text \<open>Python's \<^verbatim>\<open>int(x)\<close> on a float truncates towards zero.\<close>

definition py_int :: "real \<Rightarrow> int" where
  "py_int x = (if 0 \<le> x then \<lfloor>x\<rfloor> else \<lceil>x\<rceil>)"

text \<open>A slice bound as Python normalises it: a negative bound counts from the end,
  and the result is clamped to the sequence.\<close>

definition slice_bound :: "nat \<Rightarrow> int \<Rightarrow> nat" where
  "slice_bound n i = (if i < 0 then nat (max (i + int n) 0) else min (nat i) n)"

definition py_slice :: "'a list \<Rightarrow> int \<Rightarrow> int \<Rightarrow> 'a list" where
  "py_slice xs lo hi =
     (let l = slice_bound (length xs) lo; h = slice_bound (length xs) hi
      in take (h - l) (drop l xs))"

text \<open>\<^verbatim>\<open>del xs[i]\<close> for an index within the list.\<close>

definition del_at :: "'a list \<Rightarrow> nat \<Rightarrow> 'a list" where
  "del_at xs i = take i xs @ drop (Suc i) xs"

fun first_index :: "('a \<Rightarrow> bool) \<Rightarrow> 'a list \<Rightarrow> nat" where
  "first_index P [] = 0"
| "first_index P (x # xs) = (if P x then 0 else Suc (first_index P xs))"

text \<open>\<^verbatim>\<open>np.argmax\<close> and \<^verbatim>\<open>np.argmin\<close> of a non-empty array: the first index of
  the extreme value. On an array of booleans \<^verbatim>\<open>argmax\<close> is the index of the first
  \<^verbatim>\<open>True\<close>. The callers check for the empty array, on which numpy raises.\<close>

definition argmax :: "'a::linorder list \<Rightarrow> nat" where
  "argmax xs = first_index (\<lambda>x. x = Max (set xs)) xs"


definition np_mean :: "real list \<Rightarrow> real" where
  "np_mean xs = sum_list xs / real (length xs)"

text \<open>\<^verbatim>\<open>np.diff\<close>: the differences of adjacent elements.\<close>

definition np_diff :: "real list \<Rightarrow> real list" where
  "np_diff xs = map2 (\<lambda>a b. b - a) xs (tl xs)"

text \<open>\<^verbatim>\<open>np.median\<close> of a non-empty array.\<close>

definition np_median :: "real list \<Rightarrow> real" where
  "np_median xs =
     (let s = sort xs; n = length xs
      in if odd n then s ! (n div 2) else (s ! (n div 2 - 1) + s ! (n div 2)) / 2)"

text \<open>numpy's broadcasting of two one-dimensional arrays: equal lengths pair up, an
  array of length one is repeated, any other pair of lengths raises.\<close>

definition broadcast2 :: "'a list \<Rightarrow> 'b list \<Rightarrow> error + ('a \<times> 'b) list" where
  "broadcast2 xs ys =
     (if length xs = length ys then Inr (zip xs ys)
      else if length ys = 1 then Inr (map (\<lambda>x. (x, hd ys)) xs)
      else if length xs = 1 then Inr (map (\<lambda>y. (hd xs, y)) ys)
      else Inl ValueError)"

text \<open>Reading one element of a numpy array at an integer index: a negative index
  counts from the end, an index outside the array raises IndexError.\<close>

definition np_index :: "'a list \<Rightarrow> int \<Rightarrow> error + 'a" where
  "np_index xs i =
     (let n = int (length xs)
      in if 0 \<le> i \<and> i < n then Inr (xs ! nat i)
         else if - n \<le> i \<and> i < 0 then Inr (xs ! nat (i + n))
         else Inl IndexError)"

text \<open>A list comprehension whose element expression can raise.\<close>

fun map_err :: "('a \<Rightarrow> error + 'b) \<Rightarrow> 'a list \<Rightarrow> error + 'b list" where
  "map_err f [] = Inr []"
| "map_err f (x # xs) =
     (case f x of
        Inl e \<Rightarrow> Inl e
      | Inr y \<Rightarrow> (case map_err f xs of Inl e \<Rightarrow> Inl e | Inr ys \<Rightarrow> Inr (y # ys)))"

text \<open>\<^verbatim>\<open>a / b > c\<close> on numpy floats, with \<open>c\<close> finite: division by zero does not raise
  there, it gives \<open>inf\<close>, \<open>-inf\<close> or \<open>nan\<close> by the sign of \<open>a\<close>, and only \<open>inf\<close> is
  greater than \<open>c\<close>.\<close>

definition div_gt :: "real \<Rightarrow> real \<Rightarrow> real \<Rightarrow> bool" where
  "div_gt a b c = (if b = 0 then a > 0 else a / b > c)"

section \<open>cwt_ricker\<close>

text \<open>\<^verbatim>\<open>scipy.signal.ricker(points, a)\<close>, as the library defines it: the samples
  \<^verbatim>\<open>A * (1 - x^2/a^2) * exp(-x^2 / (2 a^2))\<close> at
  \<^verbatim>\<open>x = arange(0, points) - (points - 1)/2\<close>; \<^verbatim>\<open>arange\<close> is empty when
  \<^verbatim>\<open>points\<close> is not positive.\<close>

definition ricker :: "int \<Rightarrow> real \<Rightarrow> real list" where
  "ricker points a =
     (let A = 2 / (sqrt (3 * a) * (pi powr (1 / 4)));
          wsq = a ^ 2
      in map (\<lambda>i. let vec = real i - (real_of_int points - 1) / 2;
                       xsq = vec ^ 2
                   in A * (1 - xsq / wsq) * exp (- xsq / (2 * wsq)))
             [0..<nat points])"

text \<open>One sample of the full discrete convolution of \<open>a\<close> and \<open>v\<close>.\<close>

definition conv_at :: "real list \<Rightarrow> real list \<Rightarrow> nat \<Rightarrow> real" where
  "conv_at a v m =
     (\<Sum>j\<leftarrow>[0..<length a]. if j \<le> m \<and> m - j < length v then a ! j * v ! (m - j) else 0)"

text \<open>\<^verbatim>\<open>np.convolve(a, v, mode='same')\<close>: the operands are swapped so that the first
  is the longer, an empty operand raises ValueError, and the result is the centred
  part of the full convolution, as long as the longer operand.\<close>

definition convolve_same :: "real list \<Rightarrow> real list \<Rightarrow> error + real list" where
  "convolve_same a0 v0 =
     (let a = (if length v0 > length a0 then v0 else a0);
          v = (if length v0 > length a0 then a0 else v0)
      in if a = [] then Inl ValueError
         else if v = [] then Inl ValueError
         else Inr (map (\<lambda>k. conv_at a v (k + (length v - 1) div 2)) [0..<length a]))"

text \<open>The body of the \<^verbatim>\<open>for ind, width in enumerate(widths)\<close> loop of
  \<^verbatim>\<open>cwt_ricker\<close>: one row of the output.\<close>

definition cwt_row :: "real list \<Rightarrow> real \<Rightarrow> error + real list" where
  "cwt_row data width =
     (let N = py_int (min (10 * width) (real (length data))) div 2 * 2 - 1;
          wavelet_data = rev (ricker N width)
      in convolve_same data wavelet_data)"

fun cwt_ricker :: "real list \<Rightarrow> real list \<Rightarrow> error + real list list" where
  "cwt_ricker data [] = Inr []"
| "cwt_ricker data (width # widths) =
     (case cwt_row data width of
        Inl e \<Rightarrow> Inl e
      | Inr row \<Rightarrow>
          (case cwt_ricker data widths of
             Inl e \<Rightarrow> Inl e
           | Inr rows \<Rightarrow> Inr (row # rows)))"

section \<open>pinpoint_peaks\<close>

text \<open>The data the splines are fitted to: the threshold is subtracted, and masked
  samples and samples below the threshold are set to zero.\<close>

definition masked_data_of :: "real list \<Rightarrow> bool list option \<Rightarrow> real \<Rightarrow> error + real list" where
  "masked_data_of data msk threshold =
     (case msk of
        None \<Rightarrow> Inr (map (\<lambda>d. d - threshold) data)
      | Some m \<Rightarrow>
          (case broadcast2 m data of
             Inl e \<Rightarrow> Inl e
           | Inr md \<Rightarrow> Inr (map (\<lambda>(b, d). if b \<or> d < threshold then 0 else d - threshold) md)))"

text \<open>One pass of the body of the centroiding iteration \<^verbatim>\<open>for i in range(50)\<close>
  for one peak. \<open>I1 a b\<close> and \<open>I2 a b\<close> are the definite integrals
  \<^verbatim>\<open>spline1.integrate(a, b)\<close> and \<^verbatim>\<open>spline2.integrate(a, b)\<close>. A pass either leaves the
  loop (\<open>Stop\<close>, with the value of \<^verbatim>\<open>final_peak\<close>, \<open>None\<close> as in the source) or goes on
  to the next one with new values of \<^verbatim>\<open>xc\<close>, \<^verbatim>\<open>dxlast\<close> and \<^verbatim>\<open>dxcheck\<close>.\<close>

datatype centroid_outcome = Stop "real option" | Next real real nat

definition centroid_step ::
  "(real \<Rightarrow> real \<Rightarrow> real) \<Rightarrow> (real \<Rightarrow> real \<Rightarrow> real) \<Rightarrow> int \<Rightarrow> nat \<Rightarrow>
     real \<Rightarrow> real \<Rightarrow> nat \<Rightarrow> centroid_outcome" where
  "centroid_step I1 I2 halfwidth npts xc dxlast dxcheck =
     (let l0 = xc + (- 1) * real_of_int halfwidth;
          l1 = xc + (- 1 / 2) * real_of_int halfwidth;
          l2 = xc + (1 / 2) * real_of_int halfwidth;
          l3 = xc + 1 * real_of_int halfwidth;
          sum1 = (I2 l1 l2 - I2 l0 l1 - I2 l2 l3
                  + (xc - real_of_int halfwidth) * I1 l0 l1 - xc * I1 l1 l2
                  + (xc + real_of_int halfwidth) * I1 l2 l3);
          sum2 = I1 l1 l2 - I1 l0 l1 - I1 l2 l3
      in if sum2 = 0 then Stop None
         else
           let dx = sum1 / \<bar>sum2\<bar>;
               xc' = xc + max (- 1) (min 1 dx)
           in if xc' < real_of_int halfwidth \<or> xc' > real npts - real_of_int halfwidth
              then Stop None
              else if \<bar>dx\<bar> < 1 / 1000 then Stop (Some xc')
              else if \<bar>dx\<bar> > dxlast + 1 / 1000 then
                (if dxcheck + 1 > 3 then Stop None else Next xc' dxlast (dxcheck + 1))
              else if \<bar>dx\<bar> > dxlast - 1 / 1000 then
                Next (xc' - (1 / 2) * max (- 1) (min 1 dx)) dxlast 0
              else Next xc' \<bar>dx\<bar> 0)"

text \<open>The iteration itself; the first of the varying arguments counts the passes that
  are left. When none is left the loop ends with \<^verbatim>\<open>final_peak\<close> still \<open>None\<close>.\<close>

primrec centroid_loop ::
  "(real \<Rightarrow> real \<Rightarrow> real) \<Rightarrow> (real \<Rightarrow> real \<Rightarrow> real) \<Rightarrow> int \<Rightarrow> nat \<Rightarrow>
     nat \<Rightarrow> real \<Rightarrow> real \<Rightarrow> nat \<Rightarrow> real option" where
  "centroid_loop I1 I2 halfwidth npts 0 xc dxlast dxcheck = None"
| "centroid_loop I1 I2 halfwidth npts (Suc n) xc dxlast dxcheck =
     (case centroid_step I1 I2 halfwidth npts xc dxlast dxcheck of
        Stop final_peak \<Rightarrow> final_peak
      | Next xc' dxlast' dxcheck' \<Rightarrow> centroid_loop I1 I2 halfwidth npts n xc' dxlast' dxcheck')"

text \<open>The number of passes of the body that the iteration performs.\<close>

primrec centroid_passes ::
  "(real \<Rightarrow> real \<Rightarrow> real) \<Rightarrow> (real \<Rightarrow> real \<Rightarrow> real) \<Rightarrow> int \<Rightarrow> nat \<Rightarrow>
     nat \<Rightarrow> real \<Rightarrow> real \<Rightarrow> nat \<Rightarrow> nat" where
  "centroid_passes I1 I2 halfwidth npts 0 xc dxlast dxcheck = 0"
| "centroid_passes I1 I2 halfwidth npts (Suc n) xc dxlast dxcheck =
     (case centroid_step I1 I2 halfwidth npts xc dxlast dxcheck of
        Stop final_peak \<Rightarrow> 1
      | Next xc' dxlast' dxcheck' \<Rightarrow>
          1 + centroid_passes I1 I2 halfwidth npts n xc' dxlast' dxcheck')"

text \<open>The loop \<^verbatim>\<open>for peak in peaks\<close>. \<open>splint ys a b\<close> stands for the integral from
  \<open>a\<close> to \<open>b\<close> of the cubic spline scipy fits through the samples \<open>ys\<close> at
  \<^verbatim>\<open>0, 1, ..., len(ys) - 1\<close> (\<^verbatim>\<open>splrep\<close> with \<^verbatim>\<open>k=3, s=0\<close>, and
  \<^verbatim>\<open>BSpline.integrate\<close>). \<^verbatim>\<open>np.argmax\<close> of an empty window raises ValueError.\<close>

primrec pinpoint_loop ::
  "(real list \<Rightarrow> real \<Rightarrow> real \<Rightarrow> real) \<Rightarrow> real list \<Rightarrow> nat \<Rightarrow> int \<Rightarrow> real list \<Rightarrow>
     error + real list" where
  "pinpoint_loop splint masked_data npts halfwidth [] = Inr []"
| "pinpoint_loop splint masked_data npts halfwidth (peak # peaks) =
     (let xc0 = py_int (peak + 1 / 2);
          window = py_slice masked_data (max (xc0 - 1) 0) (min (xc0 + 2) (int npts))
      in if window = [] then Inl ValueError
         else
           let xc = int (argmax window) + xc0 - 1
           in if xc < halfwidth \<or> xc > int npts - halfwidth
              then pinpoint_loop splint masked_data npts halfwidth peaks
              else
                let x1 = xc - halfwidth;
                    x2 = xc + halfwidth + 1;
                    xvalues = map real [0..<length masked_data];
                    final_peak =
                      centroid_loop (splint masked_data)
                        (splint (map2 (*) masked_data xvalues))
                        halfwidth npts 50 (real_of_int xc) (real_of_int (x2 - x1)) 0
                in case pinpoint_loop splint masked_data npts halfwidth peaks of
                     Inl e \<Rightarrow> Inl e
                   | Inr final_peaks \<Rightarrow>
                       (case final_peak of
                          None \<Rightarrow> Inr final_peaks
                        | Some p \<Rightarrow> Inr (p # final_peaks)))"

definition pinpoint_peaks ::
  "(real list \<Rightarrow> real \<Rightarrow> real \<Rightarrow> real) \<Rightarrow> real list \<Rightarrow> bool list option \<Rightarrow> real list \<Rightarrow>
     int \<Rightarrow> real \<Rightarrow> error + real list" where
  "pinpoint_peaks splint data msk peaks halfwidth0 threshold =
     (let halfwidth = max halfwidth0 2;
          npts = length data
      in case masked_data_of data msk threshold of
           Inl e \<Rightarrow> Inl e
         | Inr masked_data \<Rightarrow>
             if list_all (\<lambda>y. y = 0) masked_data then Inr []
             else pinpoint_loop splint masked_data npts halfwidth peaks)"

text \<open>What \<open>splint\<close> is when the samples lie on a polynomial of degree at most
  three: the interpolating cubic spline is that polynomial (here in Newton's form on the
  first four samples), and \<^verbatim>\<open>integrate\<close> (with \<^verbatim>\<open>extrapolate=False\<close>) clips
  the interval to the range \<open>[0, len(ys) - 1]\<close> of the samples.\<close>

definition cubic_antiderivative :: "real list \<Rightarrow> real \<Rightarrow> real" where
  "cubic_antiderivative ys x =
     (let d1 = ys ! 1 - ys ! 0;
          d2 = ys ! 2 - 2 * ys ! 1 + ys ! 0;
          d3 = ys ! 3 - 3 * ys ! 2 + 3 * ys ! 1 - ys ! 0;
          c0 = ys ! 0;
          c1 = d1 - d2 / 2 + d3 / 3;
          c2 = d2 / 2 - d3 / 2;
          c3 = d3 / 6
      in c0 * x + c1 * x ^ 2 / 2 + c2 * x ^ 3 / 3 + c3 * x ^ 4 / 4)"

definition cubic_splint :: "real list \<Rightarrow> real \<Rightarrow> real \<Rightarrow> real" where
  "cubic_splint ys a b =
     (let a' = max a 0;
          b' = min b (real (length ys) - 1)
      in if b' \<le> a' then 0
         else cubic_antiderivative ys b' - cubic_antiderivative ys a')"

section \<open>reject_bad_peaks\<close>

text \<open>Python lists are objects that are mutated in place: a store maps the reference
  of each list object to its present contents. A peak is the pair of its location and
  its strength.\<close>

type_synonym ref = nat

type_synonym store = "ref \<Rightarrow> (real \<times> real) list"

text \<open>The loop
  \<^verbatim>\<open>while len(peaks) > diff and (peaks[-1][1] / peaks[-(diff + 1)][1] > 3): del peaks[-1]\<close>
  with \<^verbatim>\<open>diff = 3\<close>, on the list object the reference \<open>peaks\<close> points to.\<close>

function reject_loop :: "ref \<Rightarrow> store \<Rightarrow> store" where
  "reject_loop peaks h =
     (if length (h peaks) > 3 \<and>
         div_gt (snd (last (h peaks))) (snd (h peaks ! (length (h peaks) - (3 + 1)))) 3
      then reject_loop peaks (h(peaks := butlast (h peaks)))
      else h)"
  by pat_completeness auto
termination
  by (relation "measure (\<lambda>(peaks, h). length (h peaks))") auto

declare reject_loop.simps [simp del]

text \<open>\<^verbatim>\<open>peaks.sort(key=lambda x: x[1])\<close> sorts the object in place (the sort is stable),
  the loop deletes from it, and the reference passed in is the one returned.\<close>

definition reject_bad_peaks :: "ref \<Rightarrow> store \<Rightarrow> ref \<times> store" where
  "reject_bad_peaks peaks h =
     (let h1 = h(peaks := sort_key snd (h peaks));
          h2 = reject_loop peaks h1
      in (peaks, h2))"

section \<open>find_peaks\<close>

text \<open>The part of \<^verbatim>\<open>find_peaks\<close> from the sorting of the ridge-line locations on. What
  the lines before it compute with scipy and astropy are arguments here: \<open>filtered\<close>
  holds the locations \<^verbatim>\<open>x[1][0]\<close> of the ridge lines that were kept, \<open>pinpoint_data\<close> is
  the array of that name and \<open>snr\<close> the signal-to-noise array. Each of the following
  functions is the rest of \<^verbatim>\<open>find_peaks\<close> from one of its stages on, given the list of
  peaks at that point.\<close>

text \<open>The inner loop
  \<^verbatim>\<open>while j < len(peaks) and (peaks[j] - peaks[j - 1] <= 1): j += 1\<close>.\<close>

function run_end :: "nat list \<Rightarrow> nat \<Rightarrow> nat" where
  "run_end peaks j =
     (if j < length peaks \<and> int (peaks ! j) - int (peaks ! (j - 1)) \<le> 1
      then run_end peaks (j + 1)
      else j)"
  by pat_completeness auto
termination
  by (relation "measure (\<lambda>(peaks, j). length peaks - j)") auto

declare run_end.simps [simp del]

text \<open>The loop \<^verbatim>\<open>while i < len(peaks)\<close> that replaces runs of adjacent pixels by their
  mean. When the index reaches the last element the source appends that element, and
  the next pass of the loop appends it once more.\<close>

function remove_adjacent :: "nat list \<Rightarrow> nat \<Rightarrow> real list \<Rightarrow> real list" where
  "remove_adjacent peaks i new_peaks =
     (if i < length peaks then
        let j = run_end peaks (i + 1);
            new_peaks1 = new_peaks @ [np_mean (map real (py_slice peaks (int i) (int j)))];
            new_peaks2 = (if int j = int (length peaks) - 1
                          then new_peaks1 @ [real (peaks ! j)]
                          else new_peaks1)
        in remove_adjacent peaks j new_peaks2
      else new_peaks)"
  by pat_completeness auto
termination
proof (relation "measure (\<lambda>(peaks, i, new_peaks). length peaks - i)")
  show "wf (measure (\<lambda>(peaks, i, new_peaks). length peaks - i))" by simp
next
  fix peaks :: "nat list" and i :: nat and new_peaks :: "real list" and x xa xb
  assume lt: "i < length peaks" and x: "x = run_end peaks (i + 1)"
  have ge: "j \<le> run_end peaks j" for j
  proof (induction peaks j rule: run_end.induct)
    case (1 peaks j)
    show ?case
    proof (cases "j < length peaks \<and> int (peaks ! j) - int (peaks ! (j - 1)) \<le> 1")
      case True
      then have "run_end peaks j = run_end peaks (j + 1)"
        by (subst run_end.simps) simp
      with 1 [OF True] show ?thesis by simp
    next
      case False
      then have "run_end peaks j = j"
        by (subst run_end.simps) auto
      then show ?thesis by simp
    qed
  qed
  from ge [of "i + 1"] x lt
  show "((peaks, x, xb), peaks, i, new_peaks) \<in> measure (\<lambda>(peaks, i, new_peaks). length peaks - i)"
    by simp
qed

declare remove_adjacent.simps [simp del]

text \<open>\<^verbatim>\<open>pinpoint_data[snr < 0.5] = 0\<close>: the boolean index must have the shape of the
  array.\<close>

definition zero_noisy :: "real list \<Rightarrow> real list \<Rightarrow> error + real list" where
  "zero_noisy pinpoint_data snr =
     (if length snr \<noteq> length pinpoint_data then Inl IndexError
      else Inr (map2 (\<lambda>d s. if s < 1 / 2 then 0 else d) pinpoint_data snr))"

text \<open>\<^verbatim>\<open>snr[int(p + 0.5)]\<close>.\<close>

definition snr_at :: "real list \<Rightarrow> real \<Rightarrow> error + real" where
  "snr_at snr p = np_index snr (py_int (p + 1 / 2))"

text \<open>\<^verbatim>\<open>np.array(sorted(good_peaks)).T\<close>: two rows, the locations and the strengths; of
  an empty list it is an empty one-dimensional array. \<^verbatim>\<open>T.size\<close> counts the elements.\<close>

definition np_array_T :: "(real \<times> real) list \<Rightarrow> real list list" where
  "np_array_T ps = (if ps = [] then [] else [map fst ps, map snd ps])"

definition np_size :: "real list list \<Rightarrow> nat" where
  "np_size T = sum_list (map length T)"

text \<open>From the final filter on the signal-to-noise ratio to the end. The list handed to
  \<^verbatim>\<open>reject_bad_peaks\<close> is a fresh object.\<close>

definition fp_final :: "real list \<Rightarrow> real \<Rightarrow> bool \<Rightarrow> real list \<Rightarrow> error + real list list" where
  "fp_final snr min_snr reject_bad peaks =
     (case map_err (snr_at snr) peaks of
        Inl e \<Rightarrow> Inl e
      | Inr snrs \<Rightarrow>
          let final_peaks = map fst (filter (\<lambda>(p, s). s > min_snr) (zip peaks snrs))
          in case map_err (snr_at snr) final_peaks of
               Inl e \<Rightarrow> Inl e
             | Inr peak_snrs \<Rightarrow>
                 let good_peaks =
                       (if reject_bad
                        then (case reject_bad_peaks 0 ((\<lambda>r. [])(0 := zip final_peaks peak_snrs)) of
                                (r, h) \<Rightarrow> h r)
                        else zip final_peaks peak_snrs);
                     T = np_array_T (sort good_peaks)
                 in if np_size T = 0 then Inr [[], []] else Inr T)"

text \<open>The index \<^verbatim>\<open>i = np.argmax(diffs < min_sep)\<close> the loop works on: the index of the
  first \<^verbatim>\<open>True\<close>.\<close>

definition under_sep_index :: "real \<Rightarrow> real list \<Rightarrow> nat" where
  "under_sep_index min_sep peaks = argmax (map (\<lambda>d. d < min_sep) (np_diff peaks))"


text \<open>One pass of the loop that cleans up peaks that are too close together, after its
  test: the pair is pinpointed again (with the default halfwidth 4 and threshold 0), the
  second peak of the pair is deleted and the first is replaced by the mean of the new
  positions, or deleted as well when there is none.\<close>

definition merge_step ::
  "(real list \<Rightarrow> real \<Rightarrow> real \<Rightarrow> real) \<Rightarrow> real list \<Rightarrow> bool list \<Rightarrow> real \<Rightarrow> real list \<Rightarrow>
     error + real list" where
  "merge_step splint pinpoint_data msk min_sep peaks =
     (let i = under_sep_index min_sep peaks
      in case pinpoint_peaks splint pinpoint_data (Some msk)
                (py_slice peaks (int i) (int i + 2)) 4 0 of
           Inl e \<Rightarrow> Inl e
         | Inr new_peaks \<Rightarrow>
             let peaks1 = del_at peaks (i + 1)
             in if new_peaks \<noteq> [] then Inr (peaks1[i := np_mean new_peaks])
                else Inr (del_at peaks1 i))"

function merge_loop ::
  "(real list \<Rightarrow> real \<Rightarrow> real \<Rightarrow> real) \<Rightarrow> real list \<Rightarrow> bool list \<Rightarrow> real \<Rightarrow> real list \<Rightarrow>
     error + real list" where
  "merge_loop splint pinpoint_data msk min_sep peaks =
     (if list_all (\<lambda>d. d \<ge> min_sep) (np_diff peaks) then Inr peaks
      else case merge_step splint pinpoint_data msk min_sep peaks of
             Inl e \<Rightarrow> Inl e
           | Inr peaks' \<Rightarrow> merge_loop splint pinpoint_data msk min_sep peaks')"
  by pat_completeness auto
termination
proof (relation "measure (\<lambda>(splint, pinpoint_data, msk, min_sep, peaks). length peaks)")
  show "wf (measure (\<lambda>(splint, pinpoint_data, msk, min_sep, peaks). length peaks))" by simp
next
  fix splint :: "real list \<Rightarrow> real \<Rightarrow> real \<Rightarrow> real" and pinpoint_data :: "real list"
    and msk :: "bool list" and min_sep :: real and peaks peaks' :: "real list"
  assume bad: "\<not> list_all (\<lambda>d. d \<ge> min_sep) (np_diff peaks)"
    and step: "merge_step splint pinpoint_data msk min_sep peaks = Inr peaks'"
  from bad have "np_diff peaks \<noteq> []" by auto
  then have "2 \<le> length peaks"
    by (cases peaks rule: list.exhaust; cases "tl peaks") (auto simp: np_diff_def)
  moreover from step have "length peaks' = length (del_at peaks (under_sep_index min_sep peaks + 1))
      \<or> length peaks' = length (del_at (del_at peaks (under_sep_index min_sep peaks + 1))
                                  (under_sep_index min_sep peaks))"
    by (auto simp: merge_step_def Let_def split: sum.splits if_splits)
  moreover have "first_index P xs < length xs" if "list_ex P xs" for P and xs :: "bool list"
    using that by (induction xs) auto
  from this [of "\<lambda>x. x = Max (set (map (\<lambda>d. d < min_sep) (np_diff peaks)))"
                "map (\<lambda>d. d < min_sep) (np_diff peaks)"] \<open>np_diff peaks \<noteq> []\<close>
  have "under_sep_index min_sep peaks < length (np_diff peaks)"
    by (simp add: under_sep_index_def argmax_def list_ex_iff)
  then have "under_sep_index min_sep peaks + 1 < length peaks"
    by (simp add: np_diff_def)
  ultimately show "((splint, pinpoint_data, msk, min_sep, peaks'), splint, pinpoint_data, msk, min_sep, peaks)
      \<in> measure (\<lambda>(splint, pinpoint_data, msk, min_sep, peaks). length peaks)"
    by (auto simp: del_at_def)
qed

declare merge_loop.simps [simp del]

text \<open>From the loop that enforces \<^verbatim>\<open>min_sep\<close> on.\<close>

definition fp_merge ::
  "(real list \<Rightarrow> real \<Rightarrow> real \<Rightarrow> real) \<Rightarrow> real list \<Rightarrow> bool list \<Rightarrow> real list \<Rightarrow>
     real \<Rightarrow> real \<Rightarrow> bool \<Rightarrow> real list \<Rightarrow> error + real list list" where
  "fp_merge splint pinpoint_data msk snr min_snr min_sep reject_bad peaks =
     (case merge_loop splint pinpoint_data msk min_sep peaks of
        Inl e \<Rightarrow> Inl e
      | Inr peaks' \<Rightarrow> fp_final snr min_snr reject_bad peaks')"

text \<open>From the clipping of the noisy parts of \<open>pinpoint_data\<close> and the first call of
  \<^verbatim>\<open>pinpoint_peaks\<close> on.\<close>

definition fp_pinpoint ::
  "(real list \<Rightarrow> real \<Rightarrow> real \<Rightarrow> real) \<Rightarrow> real list \<Rightarrow> real list \<Rightarrow> bool list \<Rightarrow>
     real list \<Rightarrow> real \<Rightarrow> real \<Rightarrow> bool \<Rightarrow> real list \<Rightarrow> error + real list list" where
  "fp_pinpoint splint widths pinpoint_data msk snr min_snr min_sep reject_bad peaks =
     (case zero_noisy pinpoint_data snr of
        Inl e \<Rightarrow> Inl e
      | Inr pinpoint_data' \<Rightarrow>
          (case pinpoint_peaks splint pinpoint_data' (Some msk) peaks
                  (py_int (np_median widths + 1 / 2)) 0 of
             Inl e \<Rightarrow> Inl e
           | Inr peaks' \<Rightarrow>
               fp_merge splint pinpoint_data' msk snr min_snr min_sep reject_bad peaks'))"

text \<open>From the removal of the peaks whose window holds a masked sample on.\<close>

definition fp_masked ::
  "(real list \<Rightarrow> real \<Rightarrow> real \<Rightarrow> real) \<Rightarrow> real list \<Rightarrow> real list \<Rightarrow> bool list \<Rightarrow>
     real list \<Rightarrow> real \<Rightarrow> real \<Rightarrow> bool \<Rightarrow> real \<Rightarrow> real list \<Rightarrow> error + real list list" where
  "fp_masked splint widths pinpoint_data msk snr min_snr min_sep reject_bad edge peaks =
     (let peaks' = filter (\<lambda>x. \<not> list_ex (\<lambda>b. b)
                              (py_slice msk (py_int (x - edge)) (py_int (x + edge + 1)))) peaks
      in fp_pinpoint splint widths pinpoint_data msk snr min_snr min_sep reject_bad peaks')"

text \<open>From the removal of the peaks too close to the edges on.\<close>

definition fp_edges ::
  "(real list \<Rightarrow> real \<Rightarrow> real \<Rightarrow> real) \<Rightarrow> real list \<Rightarrow> real list \<Rightarrow> real list \<Rightarrow> bool list \<Rightarrow>
     real list \<Rightarrow> real \<Rightarrow> real \<Rightarrow> bool \<Rightarrow> real list \<Rightarrow> error + real list list" where
  "fp_edges splint data widths pinpoint_data msk snr min_snr min_sep reject_bad new_peaks =
     (let max_width = Max (set widths);
          edge = 235482 / 100000 * max_width;
          peaks = filter (\<lambda>p. p > edge \<and> p < real (length data) - 1 - edge) new_peaks
      in fp_masked splint widths pinpoint_data msk snr min_snr min_sep reject_bad edge peaks)"

text \<open>From the merging of adjacent pixels on.\<close>

definition fp_adjacent ::
  "(real list \<Rightarrow> real \<Rightarrow> real \<Rightarrow> real) \<Rightarrow> real list \<Rightarrow> real list \<Rightarrow> real list \<Rightarrow> bool list \<Rightarrow>
     real list \<Rightarrow> real \<Rightarrow> real \<Rightarrow> bool \<Rightarrow> nat list \<Rightarrow> error + real list list" where
  "fp_adjacent splint data widths pinpoint_data msk snr min_snr min_sep reject_bad peaks =
     fp_edges splint data widths pinpoint_data msk snr min_snr min_sep reject_bad
       (remove_adjacent peaks 0 [])"

text \<open>\<^verbatim>\<open>find_peaks\<close> from \<^verbatim>\<open>peaks = sorted([x[1][0] for x in filtered])\<close> on;
  \<^verbatim>\<open>max(widths)\<close> raises ValueError on an empty sequence.\<close>

definition find_peaks ::
  "(real list \<Rightarrow> real \<Rightarrow> real \<Rightarrow> real) \<Rightarrow> real list \<Rightarrow> real list \<Rightarrow> real list \<Rightarrow> bool list \<Rightarrow>
     real list \<Rightarrow> real \<Rightarrow> real \<Rightarrow> bool \<Rightarrow> nat list \<Rightarrow> error + real list list" where
  "find_peaks splint data widths pinpoint_data msk snr min_snr min_sep reject_bad filtered =
     (if widths = [] then Inl ValueError
      else
        let peaks = sort filtered
        in case map_err (\<lambda>x. np_index snr (int x)) peaks of
             Inl e \<Rightarrow> Inl e
           | Inr snrs \<Rightarrow>
               let peaks' = map fst (filter (\<lambda>(x, s). s > min_snr) (zip peaks snrs))
               in fp_adjacent splint data widths pinpoint_data msk snr min_snr min_sep
                    reject_bad peaks')"

section \<open>Aperture.optimal_extraction: the iteration\<close>

unbundle bit_operations_syntax

text \<open>The data-quality planes are arrays of 16-bit masks. The bits come from
  \<^verbatim>\<open>geminidr.gemini.lookups.DQ_definitions\<close>, which is not among the sources, so the
  four bits the iteration uses are parameters.\<close>

type_synonym dq = "16 word"

record dq_bits =
  bad_pixel :: dq
  cosmic_ray :: dq
  no_data :: dq
  unilluminated :: dq

definition BAD_BITS :: "dq_bits \<Rightarrow> dq" where
  "BAD_BITS DQ = bad_pixel DQ OR cosmic_ray DQ OR no_data DQ OR unilluminated DQ"

text \<open>The state of the \<^verbatim>\<open>while True\<close> loop: the mask array (flattened), the array
  \<^verbatim>\<open>unmask\<close>, the counter \<^verbatim>\<open>iter\<close>, and in \<open>fit\<close> everything numerical the loop carries
  from one pass to the next (the spectrum, the variance and its inverse, the outputs).\<close>

record 'n extraction =
  mask_plane :: "dq list"
  unmask :: "bool list"
  fit :: 'n
  iter :: nat

text \<open>One pass of the loop body. The profile fit and the variance model are astropy's;
  of steps 5 to 7 the loop's control only sees the boolean array
  \<^verbatim>\<open>sigma_deviations > cr_rej\<close>, which \<open>deviant\<close> gives per pixel from the state at the
  start of the pass, and \<open>refit\<close> gives the numerical state after step 8.\<close>

definition extraction_pass ::
  "dq_bits \<Rightarrow> ('n \<Rightarrow> dq list \<Rightarrow> bool list \<Rightarrow> nat \<Rightarrow> bool) \<Rightarrow>
     ('n \<Rightarrow> dq list \<Rightarrow> bool list \<Rightarrow> 'n) \<Rightarrow> 'n extraction \<Rightarrow> 'n extraction" where
  "extraction_pass DQ deviant refit s =
     (let hits = deviant (fit s) (mask_plane s) (unmask s);
          mask_plane' = map (\<lambda>(i, m). if hits i then m OR cosmic_ray DQ else m) (enumerate 0 (mask_plane s));
          unmask' = map (\<lambda>m. m AND BAD_BITS DQ = 0) mask_plane'
      in \<lparr>mask_plane = mask_plane', unmask = unmask', fit = refit (fit s) mask_plane' unmask', iter = iter s + 1\<rparr>)"

text \<open>\<^verbatim>\<open>np.sum(unmask ^ last_unmask)\<close>.\<close>

definition xor_count :: "bool list \<Rightarrow> bool list \<Rightarrow> nat" where
  "xor_count a b = length (filter (\<lambda>(x, y). x \<noteq> y) (zip a b))"

text \<open>The loop: a pass, then the test
  \<^verbatim>\<open>np.sum(unmask ^ last_unmask) == 0 or (max_iters is not None and iter > max_iters)\<close>.
  It is a total function: a pass can only add bits to the mask, so either \<^verbatim>\<open>unmask\<close>
  stays as it is and the loop ends, or it loses a pixel.\<close>

function optimal_loop ::
  "dq_bits \<Rightarrow> ('n \<Rightarrow> dq list \<Rightarrow> bool list \<Rightarrow> nat \<Rightarrow> bool) \<Rightarrow>
     ('n \<Rightarrow> dq list \<Rightarrow> bool list \<Rightarrow> 'n) \<Rightarrow> int option \<Rightarrow> 'n extraction \<Rightarrow> 'n extraction" where
  "optimal_loop DQ deviant refit max_iters s =
     (let last_unmask = unmask s;
          s' = extraction_pass DQ deviant refit s
      in if xor_count (unmask s') last_unmask = 0 \<or>
            (case max_iters of None \<Rightarrow> False | Some k \<Rightarrow> int (iter s') > k)
         then s'
         else optimal_loop DQ deviant refit max_iters s')"
  by pat_completeness auto
termination
proof (relation "measure (\<lambda>(DQ, deviant, refit, max_iters, s).
          2 * sum_list (map (\<lambda>m. if m AND BAD_BITS DQ = 0 then 1 else 0) (mask_plane s))
          + (if unmask s = map (\<lambda>m. m AND BAD_BITS DQ = 0) (mask_plane s) then 0 else 1))")
  show "wf (measure (\<lambda>(DQ, deviant, refit, max_iters, s).
          2 * sum_list (map (\<lambda>m. if m AND BAD_BITS DQ = 0 then 1 else 0) (mask_plane s))
          + (if unmask s = map (\<lambda>m. m AND BAD_BITS DQ = 0) (mask_plane s) then 0 else (1::nat))))"
    by simp
next
  fix DQ :: dq_bits and deviant :: "'n \<Rightarrow> dq list \<Rightarrow> bool list \<Rightarrow> nat \<Rightarrow> bool"
    and refit :: "'n \<Rightarrow> dq list \<Rightarrow> bool list \<Rightarrow> 'n" and max_iters :: "int option"
    and s s' :: "'n extraction" and last_unmask :: "bool list"
  assume last: "last_unmask = unmask s" and s': "s' = extraction_pass DQ deviant refit s"
    and go: "\<not> (xor_count (unmask s') last_unmask = 0 \<or>
                (case max_iters of None \<Rightarrow> False | Some k \<Rightarrow> int (iter s') > k))"
  let ?B = "BAD_BITS DQ"
  let ?c = "\<lambda>m::dq. if m AND ?B = 0 then 1 else (0::nat)"
  let ?h = "\<lambda>(i::nat, m::dq). if deviant (fit s) (mask_plane s) (unmask s) i then m OR cosmic_ray DQ else m"
  let ?e = "enumerate 0 (mask_plane s)"
  have mask_plane': "mask_plane s' = map ?h ?e" and un': "unmask s' = map (\<lambda>m. m AND ?B = 0) (mask_plane s')"
    by (simp_all add: s' extraction_pass_def Let_def)
  have keep: "(a OR b) AND ?B = 0 \<Longrightarrow> a AND ?B = 0" for a b :: dq
    by (simp add: bit.conj_disj_distrib2 or_eq_0_iff)
  have le: "?c (?h x) \<le> ?c (snd x)" for x
    by (cases x) (auto dest: keep)
  have mono: "sum_list (map f xs) \<le> sum_list (map g xs)"
    if "\<forall>x\<in>set xs. f x \<le> g x" for f g :: "nat \<times> dq \<Rightarrow> nat" and xs
    using that by (induction xs) (auto intro: add_mono)
  have strict: "sum_list (map f xs) < sum_list (map g xs)"
    if "\<forall>x\<in>set xs. f x \<le> g x" and "\<exists>x\<in>set xs. f x < g x"
    for f g :: "nat \<times> dq \<Rightarrow> nat" and xs
    using that
  proof (induction xs)
    case Nil
    then show ?case by simp
  next
    case (Cons x xs)
    show ?case
    proof (cases "f x < g x")
      case True
      with mono [of xs f g] Cons.prems(1) show ?thesis by (simp add: add_less_le_mono)
    next
      case False
      with Cons.prems have "\<exists>x\<in>set xs. f x < g x" "\<forall>x\<in>set xs. f x \<le> g x" "f x \<le> g x"
        by auto
      with Cons.IH show ?thesis by (simp add: add_le_less_mono)
    qed
  qed
  have via: "map (\<lambda>x. f (snd x)) (enumerate 0 xs) = map f xs" for f :: "dq \<Rightarrow> 'c" and xs
    by (simp add: list_eq_iff_nth_eq nth_enumerate_eq)
  have sums: "sum_list (map ?c (mask_plane s')) = sum_list (map (\<lambda>x. ?c (?h x)) ?e)"
    "sum_list (map ?c (mask_plane s)) = sum_list (map (\<lambda>x. ?c (snd x)) ?e)"
    by (simp_all add: mask_plane' comp_def via [of ?c])
  have weak: "sum_list (map ?c (mask_plane s')) \<le> sum_list (map ?c (mask_plane s))"
    unfolding sums by (rule mono) (use le in blast)
  have "xor_count a a = 0" for a
    by (auto simp: xor_count_def filter_empty_conv set_zip)
  with go have changed: "unmask s' \<noteq> unmask s"
    by (auto simp: last)
  have dec: "sum_list (map ?c (mask_plane s')) < sum_list (map ?c (mask_plane s))"
    if same: "unmask s = map (\<lambda>m. m AND ?B = 0) (mask_plane s)"
  proof -
    from changed un' same have "map (\<lambda>x. ?h x AND ?B = 0) ?e \<noteq> map (\<lambda>x. snd x AND ?B = 0) ?e"
      by (simp add: mask_plane' comp_def via [of "\<lambda>m. m AND ?B = 0"])
    then obtain x where x: "x \<in> set ?e" and "(?h x AND ?B = 0) \<noteq> (snd x AND ?B = 0)"
      by (auto simp: map_eq_conv)
    with le [of x] have "?c (?h x) < ?c (snd x)"
      by (auto split: if_splits)
    with x have "\<exists>x\<in>set ?e. ?c (?h x) < ?c (snd x)" by blast
    then show ?thesis
      unfolding sums by (intro strict) (use le in blast)+
  qed
  show "((DQ, deviant, refit, max_iters, s'), DQ, deviant, refit, max_iters, s)
        \<in> measure (\<lambda>(DQ, deviant, refit, max_iters, s).
          2 * sum_list (map (\<lambda>m. if m AND BAD_BITS DQ = 0 then 1 else 0) (mask_plane s))
          + (if unmask s = map (\<lambda>m. m AND BAD_BITS DQ = 0) (mask_plane s) then 0 else 1))"
    using weak dec un' by (auto split: if_splits)
qed

declare optimal_loop.simps [simp del]

text \<open>The iteration as \<^verbatim>\<open>optimal_extraction\<close> starts it: \<^verbatim>\<open>unmask\<close> all true and
  \<^verbatim>\<open>iter = 0\<close>.\<close>

definition optimal_extraction_iterate ::
  "dq_bits \<Rightarrow> ('n \<Rightarrow> dq list \<Rightarrow> bool list \<Rightarrow> nat \<Rightarrow> bool) \<Rightarrow>
     ('n \<Rightarrow> dq list \<Rightarrow> bool list \<Rightarrow> 'n) \<Rightarrow> int option \<Rightarrow> dq list \<Rightarrow> 'n \<Rightarrow> 'n extraction" where
  "optimal_extraction_iterate DQ deviant refit max_iters msk0 fit0 =
     optimal_loop DQ deviant refit max_iters
       \<lparr>mask_plane = msk0, unmask = replicate (length msk0) True, fit = fit0, iter = 0\<rparr>"

text \<open>For the example runs: the values the four bits have in DRAGONS, and a stand-in
  for the numerical part of a pass that flags one more pixel in every pass, the pixel
  whose index is the number of passes made so far (kept in \<open>fit\<close>).\<close>

definition example_bits :: dq_bits where
  "example_bits = \<lparr>bad_pixel = 1, cosmic_ray = 8, no_data = 16, unilluminated = 64\<rparr>"

definition next_pixel :: "nat \<Rightarrow> dq list \<Rightarrow> bool list \<Rightarrow> nat \<Rightarrow> bool" where
  "next_pixel n m u i = (i = n)"

definition count_pass :: "nat \<Rightarrow> dq list \<Rightarrow> bool list \<Rightarrow> nat" where
  "count_pass n m u = Suc n"

section \<open>Properties of cwt_ricker\<close>

lemma length_ricker: "length (ricker N a) = nat N"
  by (simp add: ricker_def Let_def)

lemma wavelet_points_pos:
  "1 \<le> py_int (min (10 * w) (real n)) div 2 * 2 - 1 \<longleftrightarrow> 1 / 5 \<le> w \<and> 2 \<le> n"
proof -
  have "1 \<le> py_int (min (10 * w) (real n)) div 2 * 2 - 1 \<longleftrightarrow> 2 \<le> py_int (min (10 * w) (real n))"
    by presburger
  also have "\<dots> \<longleftrightarrow> 2 \<le> min (10 * w) (real n)"
    by (auto simp: py_int_def le_floor_iff le_ceiling_iff)
  also have "\<dots> \<longleftrightarrow> 1 / 5 \<le> w \<and> 2 \<le> n" by auto
  finally show ?thesis .
qed

lemma wavelet_points_less:
  "py_int (min (10 * w) (real n)) div 2 * 2 - 1 < int n"
proof -
  have "py_int (min (10 * w) (real n)) \<le> int n"
    by (auto simp: py_int_def floor_le_iff ceiling_le_iff min_def)
  then show ?thesis by presburger
qed

text \<open>The wavelet is never longer than the signal, so \<^verbatim>\<open>np.convolve\<close> never swaps its
  operands here; a row is computed exactly when the wavelet has at least one sample.\<close>

lemma cwt_row_unfold:
  "cwt_row data w =
     (if 1 / 5 \<le> w \<and> 2 \<le> length data
      then Inr (map (\<lambda>k. conv_at data
                         (rev (ricker (py_int (min (10 * w) (real (length data))) div 2 * 2 - 1) w))
                         (k + (nat (py_int (min (10 * w) (real (length data))) div 2 * 2 - 1) - 1) div 2))
                 [0..<length data])
      else Inl ValueError)"
proof -
  let ?N = "py_int (min (10 * w) (real (length data))) div 2 * 2 - 1"
  have lt: "?N < int (length data)" by (rule wavelet_points_less)
  have pos: "1 \<le> ?N \<longleftrightarrow> 1 / 5 \<le> w \<and> 2 \<le> length data" by (rule wavelet_points_pos)
  have noswap: "\<not> length (rev (ricker ?N w)) > length data"
    using lt by (simp add: length_ricker)
  have emp: "rev (ricker ?N w) = [] \<longleftrightarrow> \<not> 1 \<le> ?N"
  proof -
    have "rev (ricker ?N w) = [] \<longleftrightarrow> length (ricker ?N w) = 0" by simp
    also have "\<dots> \<longleftrightarrow> nat ?N = 0" by (simp only: length_ricker)
    also have "\<dots> \<longleftrightarrow> \<not> 1 \<le> ?N" by linarith
    finally show ?thesis .
  qed
  show ?thesis
  proof (cases "1 / 5 \<le> w \<and> 2 \<le> length data")
    case True
    then have "data \<noteq> []" by auto
    moreover have "rev (ricker ?N w) \<noteq> []" using emp pos True by blast
    ultimately show ?thesis
      unfolding cwt_row_def Let_def convolve_same_def using noswap True
      by (simp add: length_ricker)
  next
    case False
    then have "rev (ricker ?N w) = []" using emp pos by blast
    then show ?thesis
      unfolding cwt_row_def Let_def convolve_same_def using False
      by simp
  qed
qed


lemma cwt_row_length: "cwt_row data w = Inr row \<Longrightarrow> length row = length data"
  by (auto simp: cwt_row_unfold split: if_splits)

lemma conv_at_zero: "\<forall>x\<in>set a. x = 0 \<Longrightarrow> conv_at a v m = 0"
proof -
  assume z: "\<forall>x\<in>set a. x = 0"
  have "(\<Sum>j\<leftarrow>[0..<length a]. if j \<le> m \<and> m - j < length v then a ! j * v ! (m - j) else 0)
        = (\<Sum>j\<leftarrow>[0..<length a]. 0)"
    by (rule arg_cong [where f = sum_list], rule map_cong) (use z in auto)
  then show ?thesis by (simp add: conv_at_def)
qed

lemma cwt_row_zero:
  "cwt_row data w = Inr row \<Longrightarrow> \<forall>x\<in>set data. x = 0 \<Longrightarrow> \<forall>y\<in>set row. y = 0"
  by (auto simp: cwt_row_unfold conv_at_zero split: if_splits)

text \<open>The example of numpy's documentation of \<^verbatim>\<open>convolve\<close> with \<^verbatim>\<open>mode='same'\<close>.\<close>

lemma convolve_same_example: "convolve_same [1, 2, 3] [0, 1, 1 / 2] = Inr [1, 5 / 2, 4]"
  by (simp add: convolve_same_def conv_at_def upt_rec)




text \<open>C9: whenever \<^verbatim>\<open>cwt_ricker\<close> returns, the output has one row for each width, every
  row is as long as the input signal, and the transform of an all-zero signal is
  all-zero.\<close>

theorem cwt_ricker_shape_and_zero:
  "cwt_ricker data widths = Inr out \<Longrightarrow>
     length out = length widths \<and>
     (\<forall>row\<in>set out. length row = length data) \<and>
     ((\<forall>x\<in>set data. x = 0) \<longrightarrow> (\<forall>row\<in>set out. \<forall>y\<in>set row. y = 0))"
proof (induction widths arbitrary: out)
  case Nil
  then show ?case by simp
next
  case (Cons w ws)
  from Cons.prems obtain row rows where
    row: "cwt_row data w = Inr row" and rows: "cwt_ricker data ws = Inr rows"
    and out: "out = row # rows"
    by (auto split: sum.splits)
  note ih = Cons.IH [OF rows]
  show ?case
    using ih cwt_row_length [OF row] cwt_row_zero [OF row] by (simp add: out)
qed

theorem cwt_ricker_shape_and_zero_witness:
  "\<exists>out. cwt_ricker [0, 0, 0] [1, 2] = Inr out \<and> length out = 2 \<and>
     list_all (\<lambda>row. length row = 3) out \<and> list_all (list_all (\<lambda>y. y = 0)) out"
proof -
  have "\<exists>out. cwt_ricker [0, 0, 0] [1, 2] = Inr out"
    by (simp add: cwt_row_unfold)
  then obtain out where out: "cwt_ricker [0, 0, 0] [1, 2] = Inr out" ..
  from cwt_ricker_shape_and_zero [OF out] have
    "length out = 2 \<and> list_all (\<lambda>row. length row = 3) out \<and>
     list_all (list_all (\<lambda>y. y = 0)) out"
    by (simp add: list_all_iff)
  with out show ?thesis by blast
qed

section \<open>Properties of pinpoint_peaks\<close>

lemma centroid_step_range:
  "centroid_step I1 I2 halfwidth npts xc dxlast dxcheck = Stop (Some p) \<Longrightarrow>
     real_of_int halfwidth \<le> p \<and> p \<le> real npts - real_of_int halfwidth"
  by (simp only: centroid_step_def Let_def split: if_splits) auto

lemma centroid_loop_range:
  "centroid_loop I1 I2 halfwidth npts n xc dxlast dxcheck = Some p \<Longrightarrow>
     real_of_int halfwidth \<le> p \<and> p \<le> real npts - real_of_int halfwidth"
proof (induction n arbitrary: xc dxlast dxcheck)
  case 0
  then show ?case by simp
next
  case (Suc n)
  from Suc.prems show ?case
    by (auto split: centroid_outcome.splits dest: centroid_step_range Suc.IH)
qed

lemma centroid_passes_le:
  "centroid_passes I1 I2 halfwidth npts n xc dxlast dxcheck \<le> n"
proof (induction n arbitrary: xc dxlast dxcheck)
  case 0
  show ?case by simp
next
  case (Suc n)
  show ?case
    by (auto split: centroid_outcome.splits intro: Suc.IH)
qed

lemma pinpoint_loop_bounds:
  "pinpoint_loop splint md npts halfwidth peaks = Inr res \<Longrightarrow>
     length res \<le> length peaks \<and>
     (\<forall>p\<in>set res. real_of_int halfwidth \<le> p \<and> p \<le> real npts - real_of_int halfwidth)"
proof (induction peaks arbitrary: res)
  case Nil
  then show ?case by simp
next
  case (Cons peak peaks)
  from Cons.prems show ?case
    by (simp only: pinpoint_loop.simps Let_def split: if_splits sum.splits option.splits)
       (auto dest!: Cons.IH centroid_loop_range)
qed

lemma pinpoint_peaks_bounds:
  assumes "pinpoint_peaks splint data msk peaks halfwidth threshold = Inr res"
  shows "length res \<le> length peaks"
    and "\<forall>p\<in>set res. real_of_int (max halfwidth 2) \<le> p \<and>
                     p \<le> real (length data) - real_of_int (max halfwidth 2)"
  using assms pinpoint_loop_bounds [of splint _ "length data" "max halfwidth 2" peaks res]
  by (auto simp: pinpoint_peaks_def Let_def split: sum.splits if_splits)

text \<open>A centroiding step of zero within the range ends the iteration at once.\<close>

lemma centroid_loop_fixed_point:
  assumes "I2 (xc + (- 1 / 2) * real_of_int hw) (xc + (1 / 2) * real_of_int hw)
           - I2 (xc + (- 1) * real_of_int hw) (xc + (- 1 / 2) * real_of_int hw)
           - I2 (xc + (1 / 2) * real_of_int hw) (xc + 1 * real_of_int hw)
           + (xc - real_of_int hw) * I1 (xc + (- 1) * real_of_int hw) (xc + (- 1 / 2) * real_of_int hw)
           - xc * I1 (xc + (- 1 / 2) * real_of_int hw) (xc + (1 / 2) * real_of_int hw)
           + (xc + real_of_int hw) * I1 (xc + (1 / 2) * real_of_int hw) (xc + 1 * real_of_int hw) = 0"
    and "I1 (xc + (- 1 / 2) * real_of_int hw) (xc + (1 / 2) * real_of_int hw)
         - I1 (xc + (- 1) * real_of_int hw) (xc + (- 1 / 2) * real_of_int hw)
         - I1 (xc + (1 / 2) * real_of_int hw) (xc + 1 * real_of_int hw) \<noteq> 0"
    and "real_of_int hw \<le> xc" and "xc \<le> real npts - real_of_int hw"
  shows "centroid_loop I1 I2 hw npts (Suc n) xc dxlast dxcheck = Some xc"
proof -
  have "centroid_step I1 I2 hw npts xc dxlast dxcheck = Stop (Some xc)"
    using assms(2-4) by (simp only: centroid_step_def Let_def assms(1)) simp
  then show ?thesis by simp
qed

lemma edge_integrals:
  "cubic_splint [7, 9, 15, 25, 39, 57] 2 3 = 59 / 3"
  "cubic_splint [7, 9, 15, 25, 39, 57] 3 5 = 238 / 3"
  "cubic_splint [7, 9, 15, 25, 39, 57] 5 6 = 0"
  "cubic_splint [0, 9, 30, 75, 156, 285] 2 3 = 50"
  "cubic_splint [0, 9, 30, 75, 156, 285] 3 5 = 328"
  "cubic_splint [0, 9, 30, 75, 156, 285] 5 6 = 0"
  by (simp_all add: cubic_splint_def cubic_antiderivative_def Let_def)

lemma edge_centroid:
  "centroid_loop (cubic_splint [7, 9, 15, 25, 39, 57]) (cubic_splint [0, 9, 30, 75, 156, 285])
     2 6 50 4 5 0 = Some 4"
proof -
  have "centroid_loop (cubic_splint [7, 9, 15, 25, 39, 57]) (cubic_splint [0, 9, 30, 75, 156, 285])
     2 6 (Suc 49) 4 5 0 = Some 4"
    by (rule centroid_loop_fixed_point) (simp_all add: edge_integrals)
  then show ?thesis by simp
qed

lemma pinpoint_loop_single:
  assumes "py_int (peak + 1 / 2) = xc0"
    and "py_slice md (max (xc0 - 1) 0) (min (xc0 + 2) (int npts)) = window"
    and "window \<noteq> []"
    and "int (argmax window) + xc0 - 1 = xc"
    and "\<not> (xc < hw \<or> xc > int npts - hw)"
    and "centroid_loop (splint md) (splint (map2 (*) md (map real [0..<length md])))
           hw npts 50 (real_of_int xc) (real_of_int (xc + hw + 1 - (xc - hw))) 0 = Some p"
  shows "pinpoint_loop splint md npts hw [peak] = Inr [p]"
  using assms(3,5) by (simp only: pinpoint_loop.simps Let_def assms(1,2,4,6)) simp

text \<open>C2, as the code has it: \<^verbatim>\<open>pinpoint_peaks\<close> returns at most as many locations as
  it was given, and every location it returns lies in \<open>[halfwidth, N - halfwidth]\<close>,
  where \<open>halfwidth\<close> is the effective one, \<^verbatim>\<open>max(halfwidth, 2)\<close>: the guard of the
  source is \<^verbatim>\<open>xc > npts - halfwidth\<close>.\<close>

theorem pinpoint_peaks_count_and_range:
  "pinpoint_peaks splint data msk peaks halfwidth threshold = Inr res \<Longrightarrow>
     length res \<le> length peaks \<and>
     (\<forall>p\<in>set res. real_of_int (max halfwidth 2) \<le> p \<and>
                   p \<le> real (length data) - real_of_int (max halfwidth 2))"
  using pinpoint_peaks_bounds by blast

text \<open>The samples \<open>7 + 2 x\<^sup>2\<close> for \<open>x = 0, ..., 5\<close>: the peak given at 3 snaps to the pixel
  4, where the centroiding step is zero, so the location 4 is returned. Here \<open>N = 6\<close>
  and the halfwidth is 2.\<close>

lemma pinpoint_loop_edge_run:
  "pinpoint_loop cubic_splint [7, 9, 15, 25, 39, 57] 6 2 [3] = Inr [4]"
proof -
  have xs: "map2 (*) [7, 9, 15, 25, 39, 57] (map real [0..<length [7, 9, 15, 25, 39, 57 :: real]])
            = [0, 9, 30, 75, 156, 285]"
    by (simp add: upt_rec)
  have f1: "py_int ((3::real) + 1 / 2) = 3" by (simp add: py_int_def)
  have f2: "py_slice [7, 9, 15, 25, 39, 57 :: real] (max (3 - 1) 0) (min (3 + 2) (int 6)) = [15, 25, 39]"
    by (simp add: py_slice_def slice_bound_def)
  have f3: "[15, 25, 39 :: real] \<noteq> []" by simp
  have f4: "int (argmax [15, 25, 39 :: real]) + 3 - 1 = 4" by (simp add: argmax_def)
  have f5: "\<not> ((4::int) < 2 \<or> 4 > int 6 - 2)" by simp
  have f6: "centroid_loop (cubic_splint [7, 9, 15, 25, 39, 57])
           (cubic_splint (map2 (*) [7, 9, 15, 25, 39, 57] (map real [0..<length [7, 9, 15, 25, 39, 57 :: real]])))
           2 6 50 (real_of_int 4) (real_of_int (4 + 2 + 1 - (4 - 2))) 0 = Some 4"
    using edge_centroid by (simp only: xs) simp
  show ?thesis
    by (rule pinpoint_loop_single [OF f1 f2 f3 f4 f5 f6])
qed

lemma pinpoint_peaks_edge_run:
  "pinpoint_peaks cubic_splint [7, 9, 15, 25, 39, 57] None [3] 2 0 = Inr [4]"
proof -
  have md: "masked_data_of [7, 9, 15, 25, 39, 57] None 0 = Inr [7, 9, 15, 25, 39, 57]"
    by (simp add: masked_data_of_def)
  have len: "length [7, 9, 15, 25, 39, 57 :: real] = 6" by simp
  have nz: "\<not> list_all (\<lambda>y. y = 0) [7, 9, 15, 25, 39, 57 :: real]" by simp
  have mx: "max (2::int) 2 = 2" by simp
  show ?thesis
    by (simp only: pinpoint_peaks_def Let_def md len sum.case nz mx if_False pinpoint_loop_edge_run)
qed


theorem pinpoint_peaks_count_and_range_witness:
  "pinpoint_peaks cubic_splint [7, 9, 15, 25, 39, 57] None [3] 2 0 = Inr [4] \<and>
   length [4 :: real] \<le> length [3 :: real] \<and> (2 :: real) \<le> 4 \<and> (4 :: real) \<le> 6 - 2"
  using pinpoint_peaks_count_and_range [OF pinpoint_peaks_edge_run] pinpoint_peaks_edge_run
  by simp

text \<open>C2, as the claim states it, fails: in that run the returned location 4 is
  greater than \<open>N - 1 - halfwidth = 3\<close>.\<close>

theorem pinpoint_peaks_beyond_claimed_range:
  "\<exists>p. pinpoint_peaks cubic_splint [7, 9, 15, 25, 39, 57] None [3] 2 0 = Inr [p] \<and>
       p > real (length [7, 9, 15, 25, 39, 57 :: real]) - 1 - 2"
  using pinpoint_peaks_edge_run by simp

section \<open>Properties of reject_bad_peaks\<close>

lemma reject_loop_prefix:
  "\<exists>k\<le>length (h peaks). reject_loop peaks h = h(peaks := take k (h peaks))"
proof (induction peaks h rule: reject_loop.induct)
  case (1 peaks h)
  let ?c = "length (h peaks) > 3 \<and>
         div_gt (snd (last (h peaks))) (snd (h peaks ! (length (h peaks) - (3 + 1)))) 3"
  show ?case
  proof (cases ?c)
    case True
    from 1 [OF True] obtain k where k: "k \<le> length (butlast (h peaks))"
      and eq: "reject_loop peaks (h(peaks := butlast (h peaks)))
               = (h(peaks := butlast (h peaks)))(peaks := take k (butlast (h peaks)))"
      by (auto simp only: fun_upd_same)
    have "reject_loop peaks h = reject_loop peaks (h(peaks := butlast (h peaks)))"
      using True by (subst reject_loop.simps) simp
    also have "\<dots> = (h(peaks := butlast (h peaks)))(peaks := take k (butlast (h peaks)))"
      by (rule eq)
    also have "\<dots> = h(peaks := take k (h peaks))"
    proof -
      from k True have "k < length (h peaks)" by auto
      then have "take k (butlast (h peaks)) = take k (h peaks)"
        by (rule take_butlast)
      then show ?thesis by simp
    qed
    finally have "reject_loop peaks h = h(peaks := take k (h peaks))" .
    moreover have "k \<le> length (h peaks)" using k by simp
    ultimately show ?thesis by blast
  next
    case False
    then have "reject_loop peaks h = h"
      by (subst reject_loop.simps) auto
    then have "reject_loop peaks h = h(peaks := take (length (h peaks)) (h peaks))"
      by simp
    then show ?thesis by blast
  qed
qed

lemma reject_bad_peaks_prefix:
  "\<exists>k\<le>length (h peaks).
     reject_bad_peaks peaks h = (peaks, h(peaks := take k (sort_key snd (h peaks))))"
  using reject_loop_prefix [of "h(peaks := sort_key snd (h peaks))" peaks]
  by (auto simp: reject_bad_peaks_def Let_def)





section \<open>Properties of find_peaks\<close>

lemma map_err_Inr:
  "map_err f xs = Inr ys \<Longrightarrow> ys = map (\<lambda>x. case f x of Inr y \<Rightarrow> y | Inl e \<Rightarrow> undefined) xs"
  by (induction xs arbitrary: ys) (auto split: sum.splits)

lemma map_fst_filter_zip_map:
  "map fst (filter (\<lambda>(p, s). Q s) (zip xs (map g xs))) = filter (\<lambda>p. Q (g p)) xs"
  by (induction xs) auto

lemma zip_map_self: "zip xs (map g xs) = map (\<lambda>p. (p, g p)) xs"
  by (induction xs) auto



lemma np_diff_simps [simp]: "np_diff [] = []" "np_diff [x] = []"
  by (simp_all add: np_diff_def)






lemma good_peaks_cases:
  "(if reject_bad
    then (case reject_bad_peaks 0 ((\<lambda>r. [])(0 := pairs)) of (r, h) \<Rightarrow> h r)
    else pairs) = pairs \<or>
   (\<exists>k. (if reject_bad
    then (case reject_bad_peaks 0 ((\<lambda>r. [])(0 := pairs)) of (r, h) \<Rightarrow> h r)
    else pairs) = take k (sort_key snd pairs))"
proof (cases reject_bad)
  case True
  from reject_bad_peaks_prefix [of "(\<lambda>r. [])(0 := pairs)" 0] obtain k where
    "reject_bad_peaks 0 ((\<lambda>r. [])(0 := pairs)) = (0, ((\<lambda>r. [])(0 := pairs))(0 := take k (sort_key snd pairs)))"
    by auto
  with True show ?thesis by auto
next
  case False
  then show ?thesis by simp
qed


lemma np_array_T_rows:
  "(if np_size (np_array_T S) = 0 then [[], []] else np_array_T S) = [map fst S, map snd S]"
  by (cases S) (auto simp: np_array_T_def np_size_def)

lemma fp_final_unfold:
  assumes "fp_final snr min_snr reject_bad peaks = Inr T"
  defines "g \<equiv> \<lambda>p. case snr_at snr p of Inr y \<Rightarrow> y | Inl e \<Rightarrow> undefined"
  shows "\<exists>good. (good = map (\<lambda>p. (p, g p)) (filter (\<lambda>p. g p > min_snr) peaks) \<or>
                 (\<exists>k. good = take k (sort_key snd (map (\<lambda>p. (p, g p)) (filter (\<lambda>p. g p > min_snr) peaks)))))
              \<and> T = [map fst (sort good), map snd (sort good)]"
proof -
  from assms(1) obtain snrs where s1: "map_err (snr_at snr) peaks = Inr snrs"
    by (auto simp: fp_final_def split: sum.splits)
  from map_err_Inr [OF s1] have snrs: "snrs = map g peaks" by (simp add: g_def)
  let ?F = "filter (\<lambda>p. g p > min_snr) peaks"
  have F: "map fst (filter (\<lambda>(p, s). s > min_snr) (zip peaks snrs)) = ?F"
    unfolding snrs by (rule map_fst_filter_zip_map)
  from assms(1) s1 F obtain peak_snrs where s2: "map_err (snr_at snr) ?F = Inr peak_snrs"
    by (auto simp: fp_final_def Let_def split: sum.splits)
  from map_err_Inr [OF s2] have ps: "peak_snrs = map g ?F" by (simp add: g_def)
  let ?pairs = "map (\<lambda>p. (p, g p)) ?F"
  have z: "zip ?F peak_snrs = ?pairs" unfolding ps by (rule zip_map_self)
  let ?good = "(if reject_bad
    then (case reject_bad_peaks 0 ((\<lambda>r. [])(0 := ?pairs)) of (r, h) \<Rightarrow> h r)
    else ?pairs)"
  have "Inr T = Inr (if np_size (np_array_T (sort ?good)) = 0 then [[], []] else np_array_T (sort ?good))"
    using assms(1) unfolding fp_final_def Let_def s1 sum.case F s2 z by (simp split: if_splits)
  then have "T = [map fst (sort ?good), map snd (sort ?good)]"
    by (simp only: np_array_T_rows sum.inject)
  with good_peaks_cases [of reject_bad ?pairs] show ?thesis by blast
qed


lemma find_peaks_chain:
  assumes "find_peaks splint data widths pinpoint_data msk snr min_snr min_sep reject_bad filtered = Inr T"
  shows "\<exists>pd peaks r. merge_loop splint pd msk min_sep peaks = Inr r \<and>
           fp_final snr min_snr reject_bad r = Inr T"
  using assms
  by (auto simp: find_peaks_def fp_adjacent_def fp_edges_def fp_masked_def fp_pinpoint_def
        fp_merge_def Let_def split: if_splits sum.splits)





















lemma find_peaks_two_rows:
  assumes "find_peaks splint data widths pinpoint_data msk snr min_snr min_sep reject_bad filtered = Inr T"
  shows "length T = 2 \<and> length (T ! 0) = length (T ! 1)"
proof -
  from find_peaks_chain [OF assms] obtain r where "fp_final snr min_snr reject_bad r = Inr T"
    by blast
  from fp_final_unfold [OF this] show ?thesis by auto
qed

lemma fp_final_empty: "fp_final snr min_snr reject_bad [] = Inr [[], []]"
  by (simp add: fp_final_def Let_def reject_bad_peaks_def reject_loop.simps np_array_T_def
      np_size_def)

lemma fp_merge_empty:
  "fp_merge splint pinpoint_data msk snr min_snr min_sep reject_bad [] = Inr [[], []]"
  by (simp add: fp_merge_def merge_loop.simps fp_final_empty)

lemma pinpoint_peaks_empty:
  "length msk = length data \<Longrightarrow>
     pinpoint_peaks splint data (Some msk) [] halfwidth threshold = Inr []"
  by (simp add: pinpoint_peaks_def masked_data_of_def broadcast2_def Let_def)

lemma fp_pinpoint_empty:
  assumes "length snr = length pinpoint_data" and "length msk = length pinpoint_data"
  shows "fp_pinpoint splint widths pinpoint_data msk snr min_snr min_sep reject_bad [] = Inr [[], []]"
  using assms
  by (simp add: fp_pinpoint_def zero_noisy_def pinpoint_peaks_empty fp_merge_empty)

text \<open>C7: when the list of peaks is empty after any stage, the rest of \<^verbatim>\<open>find_peaks\<close>
  raises nothing and returns the array of two empty rows; and whatever \<^verbatim>\<open>find_peaks\<close>
  returns has two rows of equal length. The arrays \<open>snr\<close>, \<open>pinpoint_data\<close> and the
  mask have the length of the data, as the lines before this part make them.\<close>

theorem find_peaks_empty_result:
  assumes "length snr = length pinpoint_data" and "length msk = length pinpoint_data"
  shows "fp_final snr min_snr reject_bad [] = Inr [[], []] \<and>
         fp_merge splint pinpoint_data msk snr min_snr min_sep reject_bad [] = Inr [[], []] \<and>
         fp_pinpoint splint widths pinpoint_data msk snr min_snr min_sep reject_bad [] = Inr [[], []] \<and>
         fp_masked splint widths pinpoint_data msk snr min_snr min_sep reject_bad edge [] = Inr [[], []] \<and>
         fp_edges splint data widths pinpoint_data msk snr min_snr min_sep reject_bad [] = Inr [[], []] \<and>
         fp_adjacent splint data widths pinpoint_data msk snr min_snr min_sep reject_bad [] = Inr [[], []] \<and>
         (widths \<noteq> [] \<longrightarrow>
            find_peaks splint data widths pinpoint_data msk snr min_snr min_sep reject_bad []
              = Inr [[], []]) \<and>
         (\<forall>filtered T.
            find_peaks splint data widths pinpoint_data msk snr min_snr min_sep reject_bad filtered
              = Inr T \<longrightarrow> length T = 2 \<and> length (T ! 0) = length (T ! 1))"
proof -
  note p = fp_pinpoint_empty [OF assms]
  have m: "fp_masked splint widths pinpoint_data msk snr min_snr min_sep reject_bad edge [] = Inr [[], []]"
    for edge by (simp add: fp_masked_def p)
  have e: "fp_edges splint data widths pinpoint_data msk snr min_snr min_sep reject_bad [] = Inr [[], []]"
    by (simp add: fp_edges_def m)
  have a: "fp_adjacent splint data widths pinpoint_data msk snr min_snr min_sep reject_bad [] = Inr [[], []]"
    by (simp add: fp_adjacent_def remove_adjacent.simps e)
  have f: "widths \<noteq> [] \<Longrightarrow>
      find_peaks splint data widths pinpoint_data msk snr min_snr min_sep reject_bad [] = Inr [[], []]"
    by (simp add: find_peaks_def a)
  show ?thesis
    by (intro conjI impI allI)
       (rule fp_final_empty, rule fp_merge_empty, rule p, rule m, rule e, rule a, erule f,
        (drule find_peaks_two_rows, erule conjunct1),
        (drule find_peaks_two_rows, erule conjunct2))
qed

text \<open>With no ridge line at all, on six samples: \<^verbatim>\<open>find_peaks\<close> returns the two empty
  rows.\<close>

theorem find_peaks_empty_result_witness:
  "find_peaks cubic_splint [7, 9, 15, 25, 39, 57] [1 / 2] [7, 9, 15, 25, 39, 57]
     [False, False, False, False, False, False] [2, 2, 2, 2, 2, 2] 1 1 True [] = Inr [[], []] \<and>
   fp_final [2, 2, 2, 2, 2, 2] 1 True [] = Inr [[], []]"
  using find_peaks_empty_result [of "[2, 2, 2, 2, 2, 2]" "[7, 9, 15, 25, 39, 57]"
      "[False, False, False, False, False, False]" 1 True cubic_splint 1 "[1 / 2]" 0
      "[7, 9, 15, 25, 39, 57]"]
  by simp

section \<open>Properties of the iteration of optimal_extraction\<close>

lemma iter_extraction_pass [simp]: "iter (extraction_pass DQ deviant refit s) = iter s + 1"
  by (simp add: extraction_pass_def Let_def)

lemma unmask_extraction_pass:
  "unmask (extraction_pass DQ deviant refit s)
     = map (\<lambda>m. m AND BAD_BITS DQ = 0) (mask_plane (extraction_pass DQ deviant refit s))"
  by (simp add: extraction_pass_def Let_def)

lemma length_mask_extraction_pass [simp]:
  "length (mask_plane (extraction_pass DQ deviant refit s)) = length (mask_plane s)"
  by (simp add: extraction_pass_def Let_def)

lemma mask_extraction_pass_keeps:
  assumes "i < length (mask_plane s)"
    and "mask_plane (extraction_pass DQ deviant refit s) ! i AND BAD_BITS DQ = 0"
  shows "mask_plane s ! i AND BAD_BITS DQ = 0"
proof -
  have keep: "(a OR b) AND BAD_BITS DQ = 0 \<Longrightarrow> a AND BAD_BITS DQ = 0" for a b :: dq
    by (simp add: bit.conj_disj_distrib2 or_eq_0_iff)
  from assms show ?thesis
    by (auto simp: extraction_pass_def Let_def nth_enumerate_eq split: if_splits dest: keep)
qed

text \<open>With \<^verbatim>\<open>max_iters\<close> set to \<open>k\<close> the loop ends at the latest with the first pass
  after which \<^verbatim>\<open>iter > k\<close>.\<close>

lemma optimal_loop_iter_Some:
  "iter (optimal_loop DQ deviant refit (Some k) s) \<le> max (iter s + 1) (nat (k + 1))"
proof (induction DQ deviant refit "Some k :: int option" s rule: optimal_loop.induct)
  case (1 DQ deviant refit s)
  let ?s' = "extraction_pass DQ deviant refit s"
  show ?case
  proof (cases "xor_count (unmask ?s') (unmask s) = 0 \<or> int (iter ?s') > k")
    case True
    then have "optimal_loop DQ deviant refit (Some k) s = ?s'"
      by (subst optimal_loop.simps) (simp add: Let_def)
    then show ?thesis by simp
  next
    case False
    then have eq: "optimal_loop DQ deviant refit (Some k) s = optimal_loop DQ deviant refit (Some k) ?s'"
      by (subst optimal_loop.simps) (simp add: Let_def)
    from False have "\<not> (xor_count (unmask ?s') (unmask s) = 0 \<or>
        (case Some k of None \<Rightarrow> False | Some k \<Rightarrow> int (iter ?s') > k))"
      by simp
    from "1.hyps" [OF refl refl this]
    have "iter (optimal_loop DQ deviant refit (Some k) ?s') \<le> max (iter ?s' + 1) (nat (k + 1))" .
    moreover from False have "int (iter ?s') \<le> k" by simp
    then have "iter ?s' + 1 \<le> nat (k + 1)" by linarith
    ultimately show ?thesis by (simp add: eq)
  qed
qed

text \<open>The pixels that \<^verbatim>\<open>unmask\<close> still holds.\<close>

lemma optimal_loop_iter_None:
  assumes "length (unmask s) = length (mask_plane s)"
    and "\<forall>i<length (mask_plane s). mask_plane s ! i AND BAD_BITS DQ = 0 \<longrightarrow> unmask s ! i"
  shows "iter (optimal_loop DQ deviant refit None s)
           \<le> iter s + card {i. i < length (unmask s) \<and> unmask s ! i} + 1"
  using assms
proof (induction DQ deviant refit "None :: int option" s rule: optimal_loop.induct)
  case (1 DQ deviant refit s)
  let ?s' = "extraction_pass DQ deviant refit s"
  let ?A = "\<lambda>s. {i. i < length (unmask s) \<and> unmask s ! i}"
  show ?case
  proof (cases "xor_count (unmask ?s') (unmask s) = 0")
    case True
    then have "optimal_loop DQ deviant refit None s = ?s'"
      by (subst optimal_loop.simps) (simp add: Let_def)
    then show ?thesis by simp
  next
    case False
    then have eq: "optimal_loop DQ deviant refit None s = optimal_loop DQ deviant refit None ?s'"
      by (subst optimal_loop.simps) (simp add: Let_def)
    from False have go: "\<not> (xor_count (unmask ?s') (unmask s) = 0 \<or>
        (case None :: int option of None \<Rightarrow> False | Some k \<Rightarrow> int (iter ?s') > k))"
      by simp
    have len': "length (unmask ?s') = length (mask_plane ?s')"
      by (simp add: unmask_extraction_pass)
    have inv': "\<forall>i<length (mask_plane ?s'). mask_plane ?s' ! i AND BAD_BITS DQ = 0 \<longrightarrow> unmask ?s' ! i"
      by (simp add: unmask_extraction_pass)
    from "1.hyps" [OF refl refl go len' inv']
    have ih: "iter (optimal_loop DQ deviant refit None ?s') \<le> iter ?s' + card (?A ?s') + 1" .
    have sub: "?A ?s' \<subseteq> ?A s"
    proof
      fix i assume a: "i \<in> ?A ?s'"
      then have i: "i < length (mask_plane s)"
        by (simp add: unmask_extraction_pass)
      with a have "mask_plane ?s' ! i AND BAD_BITS DQ = 0"
        by (simp add: unmask_extraction_pass)
      from mask_extraction_pass_keeps [OF i this] "1.prems" i show "i \<in> ?A s" by simp
    qed
    have ne: "?A ?s' \<noteq> ?A s"
    proof
      assume same: "?A ?s' = ?A s"
      have "unmask ?s' = unmask s"
      proof (rule nth_equalityI)
        show "length (unmask ?s') = length (unmask s)"
          using "1.prems"(1) by (simp add: unmask_extraction_pass)
      next
        fix i assume "i < length (unmask ?s')"
        then have "i < length (unmask s)"
          using "1.prems"(1) by (simp add: unmask_extraction_pass)
        with \<open>i < length (unmask ?s')\<close> same show "unmask ?s' ! i = unmask s ! i"
          by (metis (mono_tags, lifting) mem_Collect_eq)
      qed
      then have "xor_count (unmask ?s') (unmask s) = 0"
        by (auto simp: xor_count_def filter_empty_conv set_zip)
      with False show False by simp
    qed
    have "finite (?A s)" by simp
    with sub ne have "card (?A ?s') < card (?A s)"
      by (intro psubset_card_mono) auto
    with ih show ?thesis by (simp add: eq)
  qed
qed

lemma optimal_extraction_iterate_Some:
  "iter (optimal_extraction_iterate DQ deviant refit (Some k) msk0 fit0) \<le> max 1 (nat (k + 1))"
  using optimal_loop_iter_Some [of DQ deviant refit k
      "\<lparr>mask_plane = msk0, unmask = replicate (length msk0) True, fit = fit0, iter = 0\<rparr>"]
  by (simp add: optimal_extraction_iterate_def)

lemma optimal_extraction_iterate_None:
  "iter (optimal_extraction_iterate DQ deviant refit None msk0 fit0) \<le> length msk0 + 1"
proof -
  let ?s = "\<lparr>mask_plane = msk0, unmask = replicate (length msk0) True, fit = fit0, iter = 0\<rparr>"
  have "card {i. i < length (unmask ?s) \<and> unmask ?s ! i} \<le> card {i. i < length msk0}"
    by (intro card_mono) auto
  then have "card {i. i < length (unmask ?s) \<and> unmask ?s ! i} \<le> length msk0" by simp
  with optimal_loop_iter_None [of ?s DQ deviant refit] show ?thesis
    by (simp add: optimal_extraction_iterate_def)
qed

lemma example_BAD_BITS: "BAD_BITS example_bits = 89"
  by (simp add: BAD_BITS_def example_bits_def)

lemma example_cosmic_ray: "cosmic_ray example_bits = 8"
  by (simp add: example_bits_def)

lemma example_mask_step:
  "map (\<lambda>(i, m). if next_pixel j ms us i then m OR cosmic_ray example_bits else m)
       (enumerate 0 (map (\<lambda>i. if i < j then 8 else (0::dq)) [0..<n]))
   = map (\<lambda>i. if i < Suc j then 8 else 0) [0..<n]"
proof (rule nth_equalityI)
  show "length (map (\<lambda>(i, m). if next_pixel j ms us i then m OR cosmic_ray example_bits else m)
       (enumerate 0 (map (\<lambda>i. if i < j then 8 else (0::dq)) [0..<n])))
     = length (map (\<lambda>i. if i < Suc j then 8 else (0::dq)) [0..<n])"
    by simp
next
  fix i
  assume "i < length (map (\<lambda>(i, m). if next_pixel j ms us i then m OR cosmic_ray example_bits else m)
       (enumerate 0 (map (\<lambda>i. if i < j then 8 else (0::dq)) [0..<n])))"
  then have i: "i < n" by simp
  then have e: "enumerate 0 (map (\<lambda>i. if i < j then 8 else (0::dq)) [0..<n]) ! i
                  = (i, if i < j then 8 else 0)"
    by (simp add: nth_enumerate_eq)
  have "(if i = j then (if i < j then 8 else (0::dq)) OR 8 else (if i < j then 8 else 0))
          = (if i < Suc j then 8 else 0)"
    by (cases "i = j") (simp_all add: less_Suc_eq)
  with i e show "map (\<lambda>(i, m). if next_pixel j ms us i then m OR cosmic_ray example_bits else m)
       (enumerate 0 (map (\<lambda>i. if i < j then 8 else (0::dq)) [0..<n])) ! i
     = map (\<lambda>i. if i < Suc j then 8 else 0) [0..<n] ! i"
    by (simp add: next_pixel_def example_cosmic_ray)
qed

lemma example_unmask_step:
  "map (\<lambda>m. m AND BAD_BITS example_bits = 0) (map (\<lambda>i. if i < j then 8 else (0::dq)) [0..<n])
     = map (\<lambda>i. \<not> i < j) [0..<n]"
  by (simp add: example_BAD_BITS)

lemma example_pass:
  "extraction_pass example_bits next_pixel count_pass
     \<lparr>mask_plane = map (\<lambda>i. if i < j then 8 else 0) [0..<n],
      unmask = map (\<lambda>i. \<not> i < j) [0..<n], fit = j, iter = j\<rparr>
   = \<lparr>mask_plane = map (\<lambda>i. if i < Suc j then 8 else 0) [0..<n],
      unmask = map (\<lambda>i. \<not> i < Suc j) [0..<n], fit = Suc j, iter = Suc j\<rparr>"
  unfolding extraction_pass_def Let_def
  by (simp only: extraction.simps example_mask_step example_unmask_step) (simp add: count_pass_def)

lemma xor_count_zero_iff:
  "xor_count a b = 0 \<longleftrightarrow> (\<forall>i<min (length a) (length b). a ! i = b ! i)"
proof -
  have "xor_count a b = 0 \<longleftrightarrow> (\<forall>p\<in>set (zip a b). fst p = snd p)"
    by (simp add: xor_count_def filter_empty_conv case_prod_beta)
  also have "\<dots> \<longleftrightarrow> (\<forall>i<length (zip a b). fst (zip a b ! i) = snd (zip a b ! i))"
    by (simp only: all_set_conv_all_nth)
  also have "\<dots> \<longleftrightarrow> (\<forall>i<min (length a) (length b). a ! i = b ! i)"
    by simp
  finally show ?thesis .
qed

lemma example_xor:
  "xor_count (map (\<lambda>i. \<not> i < Suc j) [0..<n]) (map (\<lambda>i. \<not> i < j) [0..<n]) = 0 \<longleftrightarrow> n \<le> j"
proof -
  have "xor_count (map (\<lambda>i. \<not> i < Suc j) [0..<n]) (map (\<lambda>i. \<not> i < j) [0..<n]) = 0
          \<longleftrightarrow> (\<forall>i<n. (i < Suc j) = (i < j))"
    by (simp add: xor_count_zero_iff)
  also have "\<dots> \<longleftrightarrow> n \<le> j"
  proof
    assume all: "\<forall>i<n. (i < Suc j) = (i < j)"
    show "n \<le> j"
    proof (rule ccontr)
      assume "\<not> n \<le> j"
      then have "j < n" by simp
      with all have "(j < Suc j) = (j < j)" by blast
      then show False by simp
    qed
  next
    assume "n \<le> j"
    then show "\<forall>i<n. (i < Suc j) = (i < j)" by auto
  qed
  finally show ?thesis .
qed

lemma example_loop:
  "j \<le> n \<Longrightarrow>
   iter (optimal_loop example_bits next_pixel count_pass None
     \<lparr>mask_plane = map (\<lambda>i. if i < j then 8 else 0) [0..<n],
      unmask = map (\<lambda>i. \<not> i < j) [0..<n], fit = j, iter = j\<rparr>) = Suc n"
proof (induction "n - j" arbitrary: j)
  case 0
  then have "n \<le> j" by simp
  then show ?case
    using 0 by (subst optimal_loop.simps) (simp add: Let_def example_pass example_xor)
next
  case (Suc d)
  then have lt: "\<not> n \<le> j" and d: "d = n - Suc j" and le: "Suc j \<le> n" by simp_all
  from Suc.hyps(1) [OF d le] lt show ?case
    by (subst optimal_loop.simps) (simp add: Let_def example_pass example_xor)
qed

lemma example_run:
  "iter (optimal_extraction_iterate example_bits next_pixel count_pass None (replicate n 0) 0) = Suc n"
proof -
  have "replicate n (0::dq) = map (\<lambda>i. if i < 0 then 8 else 0) [0..<n]"
    by (simp add: map_replicate_const)
  moreover have "replicate n True = map (\<lambda>i. \<not> i < 0) [0..<n]"
    by (simp add: map_replicate_const)
  ultimately show ?thesis
    using example_loop [of 0 n] by (simp add: optimal_extraction_iterate_def)
qed

text \<open>C4: with \<^verbatim>\<open>max_iters = 1\<close>, on three pixels of which every pass flags one more,
  the loop body runs twice: the test after a pass is \<^verbatim>\<open>iter > max_iters\<close>, so the loop
  ends only after pass \<^verbatim>\<open>max_iters + 1\<close>.\<close>

theorem optimal_loop_past_max_iters:
  "iter (optimal_extraction_iterate example_bits next_pixel count_pass (Some 1) [0, 0, 0] 0) = 2"
proof -
  have m: "[0, 0, 0 :: dq] = map (\<lambda>i. if i < 0 then 8 else 0) [0..<3]"
    by (simp add: upt_rec)
  have u: "replicate (length [0, 0, 0 :: dq]) True = map (\<lambda>i. \<not> i < 0) [0..<3]"
    by (simp add: upt_rec)
  have "iter (optimal_loop example_bits next_pixel count_pass (Some 1)
          \<lparr>mask_plane = map (\<lambda>i. if i < 0 then 8 else 0) [0..<3],
           unmask = map (\<lambda>i. \<not> i < 0) [0..<3], fit = 0, iter = 0\<rparr>) = 2"
    apply (subst optimal_loop.simps)
    apply (simp only: Let_def example_pass example_xor extraction.simps)
    apply simp
    apply (subst optimal_loop.simps)
    apply (simp only: Let_def example_pass example_xor extraction.simps)
    apply simp
    done
  then show ?thesis
    unfolding optimal_extraction_iterate_def u by (simp only: m)
qed

end
